theory Spec2Isabelle
  imports Complex_Main "HOL-Library.Log_Nat"
begin

section \<open>Data model\<close>

text \<open>
  The task documents of \<^verbatim>\<open>common/models/Task.js\<close>, restricted to the fields the
  reminder and summary code reads or writes. Instants are milliseconds since the epoch.
  A field of the \<^verbatim>\<open>reminder\<close> sub-document, and \<^verbatim>\<open>priority\<close> and \<^verbatim>\<open>dueDate\<close>,
  can be null or absent in a stored document: that is \<open>None\<close>. A MongoDB equality or
  range filter never matches such a field.
\<close>

type_synonym instant = int
type_synonym task_id = nat
type_synonym user_id = nat

datatype status = Pending | InProgress | Completed | Cancelled

datatype priority = Low | Medium | High | Urgent

record reminder =
  enabled :: "bool option"
  reminderDate :: "instant option"
  notified :: "bool option"

record task =
  tid :: task_id
  userId :: user_id
  title :: string
  status :: status
  priority :: "priority option"
  dueDate :: "instant option"
  reminder :: reminder
  isArchived :: bool
  lastModified :: instant
  syncVersion :: nat
  reminder_sent :: "bool option"
  reminder_datetime :: "instant option"

text \<open>
  \<open>reminder_sent\<close> and \<open>reminder_datetime\<close> are the stored paths \<^verbatim>\<open>reminder.sent\<close> and
  \<^verbatim>\<open>reminder.datetime\<close>. The schema does not declare them: a stored document has
  them only if something other than the Task model wrote them, and the model never writes
  them, since an assignment to an undeclared path of a document is dropped.
\<close>

text \<open>
  The populated owner (\<^verbatim>\<open>populate('userId', 'name email preferences')\<close>).
  \<open>emailPref\<close> is the value of \<^verbatim>\<open>user.preferences?.notifications?.email\<close>:
  \<open>None\<close> when the optional chain yields undefined. An absent or empty
  \<^verbatim>\<open>email\<close> is the empty string.
\<close>

record user =
  uname :: string
  email :: string
  emailPref :: "bool option"

type_synonym users = "user_id \<Rightarrow> user option"

text \<open>
  The collection is the list of its documents; \<^verbatim>\<open>_id\<close> is unique in a collection,
  which the theorems assume as \<open>distinct (map tid store)\<close>.
\<close>

type_synonym store = "task list"

datatype js_error =
    TypeError | StoreError | DocumentNotFound | TaskNotFound | UserEmailNotFound | MailError
  | UpdateConflict

text \<open>
  What the code cannot decide by itself: whether the database answers, whether the
  mail transport accepts a message, and whether the mail service was configured at
  start-up.
\<close>

record env =
  storeDown :: bool
  saveFails :: "task_id \<Rightarrow> bool"
  isConfigured :: bool
  templateLoaded :: bool
  transportOk :: "task_id \<Rightarrow> bool"

definition lookup :: "store \<Rightarrow> task_id \<Rightarrow> task option" where
  "lookup s i = find (\<lambda>d. tid d = i) s"

subsection \<open>Saving a document\<close>

text \<open>
  \<^verbatim>\<open>task.save()\<close> on a document that came from a query writes the paths modified
  since it was loaded to the stored document with the same \<^verbatim>\<open>_id\<close>, here paths of
  \<^verbatim>\<open>reminder\<close> given as the function \<open>f\<close>, after the \<^verbatim>\<open>pre('save')\<close> hook has set
  \<^verbatim>\<open>lastModified\<close> and incremented the in-memory \<^verbatim>\<open>syncVersion\<close> (\<^verbatim>\<open>status\<close> is
  not modified by any caller below, so the hook's \<^verbatim>\<open>completedAt\<close> branch is skipped).
  It rejects when the database does, and when no stored document has that \<^verbatim>\<open>_id\<close>.
\<close>

definition save :: "env \<Rightarrow> instant \<Rightarrow> task \<Rightarrow> (reminder \<Rightarrow> reminder) \<Rightarrow> store \<Rightarrow> js_error + store" where
  "save e now doc f s =
     (if saveFails e (tid doc) then Inl StoreError
      else if lookup s (tid doc) = None then Inl DocumentNotFound
      else Inr (map (\<lambda>d. if tid d = tid doc
                            then d\<lparr>reminder := f (reminder d), lastModified := now,
                                   syncVersion := syncVersion doc + 1\<rparr>
                            else d) s))"

section \<open>The reminder cycle of the notification service\<close>

text \<open>
  \<^verbatim>\<open>notification-service/services/emailService.js\<close>. \<^verbatim>\<open>sendEmail\<close> returns an object
  with \<^verbatim>\<open>success\<close> and never rejects: a transport error is caught inside it.
\<close>

datatype send_result = Delivered | Undelivered

definition sendEmail :: "env \<Rightarrow> task_id \<Rightarrow> send_result" where
  "sendEmail e i =
     (if \<not> isConfigured e then Undelivered
      else if \<not> templateLoaded e then Undelivered
      else if transportOk e i then Delivered
      else Undelivered)"

text \<open>
  \<^verbatim>\<open>sendTaskReminder(user, task)\<close> builds the template data first;
  \<^verbatim>\<open>task.priority.toUpperCase()\<close> throws a TypeError on a null priority.
\<close>

definition sendTaskReminder :: "env \<Rightarrow> user \<Rightarrow> task \<Rightarrow> js_error + send_result" where
  "sendTaskReminder e u t =
     (case priority t of
        None \<Rightarrow> Inl TypeError
      | Some p \<Rightarrow> Inr (sendEmail e (tid t)))"

text \<open>
  The log of one cycle: every call of the mail service that reached the transport
  decision, with the task it was for and what came of it.
\<close>

type_synonym mail_log = "(task_id \<times> send_result) list"

text \<open>The filter of \<^verbatim>\<open>Task.find\<close> in \<^verbatim>\<open>checkAndSendReminders\<close>.\<close>

definition reminderWindow :: "instant \<Rightarrow> instant" where
  "reminderWindow now = now + 5 * 60 * 1000"

definition dueReminder :: "instant \<Rightarrow> task \<Rightarrow> bool" where
  "dueReminder now t \<longleftrightarrow>
     enabled (reminder t) = Some True \<and>
     notified (reminder t) = Some False \<and>
     (case reminderDate (reminder t) of None \<Rightarrow> False | Some d \<Rightarrow> d \<le> reminderWindow now) \<and>
     (status t = Pending \<or> status t = InProgress) \<and>
     isArchived t = False"

text \<open>
  The callback of \<^verbatim>\<open>tasksWithReminders.map\<close>: \<open>t\<close> is the document as the query
  returned it, \<open>s\<close> the collection when the callback runs. Everything thrown inside is
  caught and logged, leaving the collection as it was.
\<close>

definition markNotified :: "env \<Rightarrow> instant \<Rightarrow> task \<Rightarrow> store \<Rightarrow> js_error + store" where
  "markNotified e now t s = save e now t (\<lambda>r. r\<lparr>notified := Some True\<rparr>) s"

definition remindOne :: "env \<Rightarrow> instant \<Rightarrow> users \<Rightarrow> task \<Rightarrow> store \<times> mail_log \<Rightarrow> store \<times> mail_log" where
  "remindOne e now us t acc =
     (case us (userId t) of
        None \<Rightarrow> acc
      | Some u \<Rightarrow>
          (case (if emailPref u \<noteq> Some False
                 then map_sum id Some (sendTaskReminder e u t)
                 else Inr None) of
             Inl err \<Rightarrow> acc
           | Inr r \<Rightarrow>
               (let l = (case r of None \<Rightarrow> snd acc | Some x \<Rightarrow> snd acc @ [(tid t, x)])
                in case markNotified e now t (fst acc) of
                     Inl err \<Rightarrow> (fst acc, l)
                   | Inr s' \<Rightarrow> (s', l))))"

text \<open>
  \<^verbatim>\<open>checkAndSendReminders\<close>. The callbacks are started together and awaited with
  \<^verbatim>\<open>Promise.allSettled\<close>; each writes only its own document, so they are run here one
  after the other in the order of the query result. A rejected query is caught by the
  outer handler and nothing happens.
\<close>

definition checkAndSendReminders :: "env \<Rightarrow> instant \<Rightarrow> users \<Rightarrow> store \<Rightarrow> store \<times> mail_log" where
  "checkAndSendReminders e now us s =
     (if storeDown e then (s, [])
      else fold (remindOne e now us) (filter (dueReminder now) s) (s, []))"

text \<open>
  The cron job of the notification service's server awaits \<^verbatim>\<open>checkAndSendReminders\<close>
  every five minutes. Cycles that do not overlap are a sequence, each with its own
  environment, clock reading and users, each starting from the collection the one
  before left; the log is that of all of them.
\<close>

fun runCycles :: "(env \<times> instant \<times> users) list \<Rightarrow> store \<Rightarrow> store \<times> mail_log" where
  "runCycles [] s = (s, [])"
| "runCycles ((e, now, us) # cs) s =
     (let r = checkAndSendReminders e now us s;
          r' = runCycles cs (fst r)
      in (fst r', snd r @ snd r'))"

section \<open>The reminder scheduler (\<^verbatim>\<open>checkReminders\<close>)\<close>

text \<open>
  The second scanner, required by its server as \<^verbatim>\<open>./services/reminderService\<close>. It
  selects on \<^verbatim>\<open>reminder.sent\<close> and \<^verbatim>\<open>reminder.datetime\<close> and assigns
  \<^verbatim>\<open>task.reminder.sent\<close>, none of them a path of the schema. Its \<^verbatim>\<open>sendEmail\<close>
  rethrows a transport error.
\<close>

definition sendEmail_scheduler :: "env \<Rightarrow> task_id \<Rightarrow> js_error + unit" where
  "sendEmail_scheduler e i = (if transportOk e i then Inr () else Inl MailError)"

text \<open>
  \<^verbatim>\<open>sendTaskReminder(task)\<close>: the result is the log entry of the mail call, if one was
  made. A missing owner or owner email throws \<^verbatim>\<open>'User email not found'\<close>; a falsy
  email preference returns early, without a mail call.
\<close>

definition sendTaskReminder_scheduler :: "env \<Rightarrow> users \<Rightarrow> task \<Rightarrow> js_error + unit option" where
  "sendTaskReminder_scheduler e us t =
     (case us (userId t) of
        None \<Rightarrow> Inl UserEmailNotFound
      | Some u \<Rightarrow>
          if email u = [] then Inl UserEmailNotFound
          else if emailPref u \<noteq> Some True then Inr None
          else map_sum id Some (sendEmail_scheduler e (tid t)))"

text \<open>
  The filter of \<^verbatim>\<open>Task.find\<close> in \<^verbatim>\<open>checkReminders\<close>. A filter on an undeclared
  path goes to the database as it is, so only a document that has the two stored paths
  can match.
\<close>

definition pendingReminder :: "instant \<Rightarrow> task \<Rightarrow> bool" where
  "pendingReminder now t \<longleftrightarrow>
     enabled (reminder t) = Some True \<and>
     reminder_sent t = Some False \<and>
     (case reminder_datetime t of None \<Rightarrow> False | Some d \<Rightarrow> d \<le> now) \<and>
     status t \<noteq> Completed \<and>
     isArchived t = False"

text \<open>
  The body of the \<^verbatim>\<open>for\<close> loop. A mail call that threw is logged as \<open>Undelivered\<close>.
  \<^verbatim>\<open>task.reminder.sent = true\<close> is dropped, so the \<^verbatim>\<open>save\<close> that follows writes no
  reminder path: only what the \<^verbatim>\<open>pre('save')\<close> hook set.
\<close>

definition checkOne :: "env \<Rightarrow> instant \<Rightarrow> users \<Rightarrow> task \<Rightarrow> store \<times> mail_log \<Rightarrow> store \<times> mail_log" where
  "checkOne e now us t acc =
     (case sendTaskReminder_scheduler e us t of
        Inl err \<Rightarrow> (fst acc, if err = MailError then snd acc @ [(tid t, Undelivered)] else snd acc)
      | Inr r \<Rightarrow>
          (let l = (case r of None \<Rightarrow> snd acc | Some x \<Rightarrow> snd acc @ [(tid t, Delivered)])
           in case save e now t (\<lambda>r. r) (fst acc) of
                Inl err \<Rightarrow> (fst acc, l)
              | Inr s' \<Rightarrow> (s', l)))"

definition checkReminders :: "env \<Rightarrow> instant \<Rightarrow> users \<Rightarrow> store \<Rightarrow> store \<times> mail_log" where
  "checkReminders e now us s =
     (if storeDown e then (s, [])
      else fold (checkOne e now us) (filter (pendingReminder now) s) (s, []))"

section \<open>Scheduling and cancelling a reminder\<close>

text \<open>
  The object both functions return. \<open>error\<close> stands for \<^verbatim>\<open>error.message\<close> of the
  caught exception; \<open>scheduledDate\<close> is the \<^verbatim>\<open>reminderDate\<close> of the success object.
\<close>

record op_result =
  success :: bool
  message :: string
  error :: "js_error option"
  scheduledDate :: "instant option"

definition findById :: "env \<Rightarrow> store \<Rightarrow> task_id \<Rightarrow> js_error + task option" where
  "findById e s i = (if storeDown e then Inl StoreError else Inr (lookup s i))"

text \<open>
  The \<^verbatim>\<open>try\<close> block and the whole function. \<open>Inl\<close> is an exception: in the block it
  is one the handler receives, from the function it would be one the caller receives.
\<close>

definition scheduleReminder_try ::
  "env \<Rightarrow> instant \<Rightarrow> task_id \<Rightarrow> instant option \<Rightarrow> store \<Rightarrow> js_error + op_result \<times> store" where
  "scheduleReminder_try e now i rd s =
     (case findById e s i of
        Inl err \<Rightarrow> Inl err
      | Inr None \<Rightarrow> Inl TaskNotFound
      | Inr (Some t) \<Rightarrow>
          (case save e now t (\<lambda>r. r\<lparr>enabled := Some True, reminderDate := rd, notified := Some False\<rparr>) s of
             Inl err \<Rightarrow> Inl err
           | Inr s' \<Rightarrow>
               Inr (\<lparr>success = True, message = ''Reminder scheduled successfully'',
                     error = None, scheduledDate = rd\<rparr>, s')))"

definition scheduleReminder ::
  "env \<Rightarrow> instant \<Rightarrow> task_id \<Rightarrow> instant option \<Rightarrow> store \<Rightarrow> js_error + op_result \<times> store" where
  "scheduleReminder e now i rd s =
     (case scheduleReminder_try e now i rd s of
        Inl err \<Rightarrow>
          Inr (\<lparr>success = False, message = ''Failed to schedule reminder'',
                error = Some err, scheduledDate = None\<rparr>, s)
      | Inr x \<Rightarrow> Inr x)"

definition cancelReminder_try ::
  "env \<Rightarrow> instant \<Rightarrow> task_id \<Rightarrow> store \<Rightarrow> js_error + op_result \<times> store" where
  "cancelReminder_try e now i s =
     (case findById e s i of
        Inl err \<Rightarrow> Inl err
      | Inr None \<Rightarrow> Inl TaskNotFound
      | Inr (Some t) \<Rightarrow>
          (case save e now t (\<lambda>r. r\<lparr>enabled := Some False, notified := Some False, reminderDate := None\<rparr>) s of
             Inl err \<Rightarrow> Inl err
           | Inr s' \<Rightarrow>
               Inr (\<lparr>success = True, message = ''Reminder cancelled successfully'',
                     error = None, scheduledDate = None\<rparr>, s')))"

definition cancelReminder ::
  "env \<Rightarrow> instant \<Rightarrow> task_id \<Rightarrow> store \<Rightarrow> js_error + op_result \<times> store" where
  "cancelReminder e now i s =
     (case cancelReminder_try e now i s of
        Inl err \<Rightarrow>
          Inr (\<lparr>success = False, message = ''Failed to cancel reminder'',
                error = Some err, scheduledDate = None\<rparr>, s)
      | Inr x \<Rightarrow> Inr x)"

section \<open>Editing tasks in bulk (\<^verbatim>\<open>bulkUpdateTasks\<close>)\<close>

text \<open>
  \<^verbatim>\<open>PATCH /bulk\<close> of the task service hands the request body to the controller
  unvalidated. \<^verbatim>\<open>updates\<close> is an update document: a list of keys with their values. A
  key \<^verbatim>\<open>reminder\<close> carries an object, which replaces the stored sub-document whole
  (its undeclared keys dropped); a dotted key such as \<^verbatim>\<open>reminder.reminderDate\<close> sets
  one field of it. The keys kept are those the reminder and summary code reads, and the
  three the controller deletes.
\<close>

datatype update_key =
    UUserId user_id
  | UId task_id
  | UCreatedAt instant
  | UStatus status
  | UDueDate "instant option"
  | UIsArchived bool
  | UReminder reminder
  | UReminderEnabled bool
  | UReminderDate "instant option"
  | UReminderNotified bool

fun deleted_key :: "update_key \<Rightarrow> bool" where
  "deleted_key (UUserId _) = True"
| "deleted_key (UId _) = True"
| "deleted_key (UCreatedAt _) = True"
| "deleted_key _ = False"

fun whole_reminder :: "update_key \<Rightarrow> bool" where
  "whole_reminder (UReminder _) = True"
| "whole_reminder _ = False"

fun reminder_path :: "update_key \<Rightarrow> bool" where
  "reminder_path (UReminderEnabled _) = True"
| "reminder_path (UReminderDate _) = True"
| "reminder_path (UReminderNotified _) = True"
| "reminder_path _ = False"

fun applyUpdate :: "update_key \<Rightarrow> task \<Rightarrow> task" where
  "applyUpdate (UStatus x) t = t\<lparr>status := x\<rparr>"
| "applyUpdate (UDueDate x) t = t\<lparr>dueDate := x\<rparr>"
| "applyUpdate (UIsArchived x) t = t\<lparr>isArchived := x\<rparr>"
| "applyUpdate (UReminder r) t = t\<lparr>reminder := r, reminder_sent := None, reminder_datetime := None\<rparr>"
| "applyUpdate (UReminderEnabled x) t = t\<lparr>reminder := (reminder t)\<lparr>enabled := Some x\<rparr>\<rparr>"
| "applyUpdate (UReminderDate x) t = t\<lparr>reminder := (reminder t)\<lparr>reminderDate := x\<rparr>\<rparr>"
| "applyUpdate (UReminderNotified x) t = t\<lparr>reminder := (reminder t)\<lparr>notified := Some x\<rparr>\<rparr>"
| "applyUpdate _ t = t"

text \<open>
  \<^verbatim>\<open>Task.updateMany(filter, updates, { runValidators: true })\<close>: the database refuses an
  update that sets a document and a path inside it at once; no \<^verbatim>\<open>save\<close> hook runs, so
  \<^verbatim>\<open>lastModified\<close> and \<^verbatim>\<open>syncVersion\<close> stay. The result is the number of documents
  matched.
\<close>

definition updateMany ::
  "env \<Rightarrow> (task \<Rightarrow> bool) \<Rightarrow> update_key list \<Rightarrow> store \<Rightarrow> js_error + nat \<times> store" where
  "updateMany e p ups s =
     (if storeDown e then Inl StoreError
      else if list_ex whole_reminder ups \<and> list_ex reminder_path ups then Inl UpdateConflict
      else Inr (length (filter p s), map (\<lambda>d. if p d then fold applyUpdate ups d else d) s))"

text \<open>
  \<^verbatim>\<open>bulkUpdateTasks\<close>. The response is its status code and, on success, the matched
  count (the modified count of the database is left out). A missing, non-array or empty
  \<^verbatim>\<open>taskIds\<close> is the empty list; a missing \<^verbatim>\<open>updates\<close> is \<open>None\<close>, on which the
  first \<^verbatim>\<open>delete\<close> throws.
\<close>

datatype bulk_response = BulkUpdated nat | BulkError nat

definition bulkUpdateTasks ::
  "env \<Rightarrow> user_id \<Rightarrow> task_id list \<Rightarrow> update_key list option \<Rightarrow> store \<Rightarrow> bulk_response \<times> store" where
  "bulkUpdateTasks e uid taskIds body s =
     (if taskIds = [] then (BulkError 400, s)
      else case body of
             None \<Rightarrow> (BulkError 500, s)
           | Some ups \<Rightarrow>
               (let updates = filter (\<lambda>k. \<not> deleted_key k) ups
                in case updateMany e (\<lambda>d. tid d \<in> set taskIds \<and> userId d = uid) updates s of
                     Inl err \<Rightarrow> (BulkError 500, s)
                   | Inr (n, s') \<Rightarrow> (BulkUpdated n, s')))"

section \<open>JavaScript numbers\<close>

text \<open>
  A JavaScript number is an IEEE 754 double: every arithmetic result is the exact
  result rounded to the nearest value with a 53-bit significand, ties to the even
  significand. The counts below are far from overflow and from the subnormal range, so
  the exponent is left unbounded. \<open>binade x\<close> is the integer \<open>k\<close> with
  \<open>2 ^ k \<le> x < 2 ^ (k + 1)\<close> for positive \<open>x\<close>.
\<close>

definition pow2 :: "int \<Rightarrow> rat" where
  "pow2 k = (if 0 \<le> k then 2 ^ nat k else 1 / 2 ^ nat (- k))"

definition roundTiesToEven :: "rat \<Rightarrow> int" where
  "roundTiesToEven x =
     (let f = \<lfloor>x\<rfloor>; r = x - of_int f
      in if r < 1 / 2 then f
         else if 1 / 2 < r then f + 1
         else if even f then f else f + 1)"

definition binade :: "rat \<Rightarrow> int" where
  "binade x =
     (let k = bitlen (fst (quotient_of x)) - bitlen (snd (quotient_of x))
      in if pow2 k \<le> x then k else k - 1)"

definition toDouble :: "rat \<Rightarrow> rat" where
  "toDouble x =
     (if x = 0 then 0
      else let u = pow2 (binade \<bar>x\<bar> - 52)
           in sgn x * of_int (roundTiesToEven (\<bar>x\<bar> / u)) * u)"

definition js_div :: "rat \<Rightarrow> rat \<Rightarrow> rat" where
  "js_div a b = toDouble (a / b)"

definition js_mul :: "rat \<Rightarrow> rat \<Rightarrow> rat" where
  "js_mul a b = toDouble (a * b)"

text \<open>\<^verbatim>\<open>Math.round\<close>: the nearest integer, a tie going up.\<close>

definition Math_round :: "rat \<Rightarrow> int" where
  "Math_round x = \<lfloor>x + 1 / 2\<rfloor>"

section \<open>The user summary\<close>

record summary =
  totalTasks :: nat
  completedTasks :: nat
  pendingTasks :: nat
  overdueTasks :: nat
  todayTasks :: nat
  upcomingTasks :: "(string \<times> instant option \<times> priority option) list"
  completionRate :: int

text \<open>
  \<^verbatim>\<open>Date.prototype.setHours\<close> works in the local time zone of the process, taken here
  as a fixed offset \<open>tz\<close> from UTC in milliseconds. It changes the Date object it is
  called on and returns the new time value.
\<close>

definition dayMs :: int where
  "dayMs = 24 * 60 * 60 * 1000"

definition setHours :: "int \<Rightarrow> int \<Rightarrow> int \<Rightarrow> int \<Rightarrow> int \<Rightarrow> instant \<Rightarrow> instant" where
  "setHours tz h m sec ms t =
     t - (t + tz) mod dayMs + ((h * 60 + m) * 60 + sec) * 1000 + ms"

definition countDocuments :: "(task \<Rightarrow> bool) \<Rightarrow> store \<Rightarrow> nat" where
  "countDocuments p s = length (filter p s)"

definition dueBefore :: "instant \<Rightarrow> task \<Rightarrow> bool" where
  "dueBefore b t = (case dueDate t of None \<Rightarrow> False | Some d \<Rightarrow> d < b)"

definition dueBetween :: "instant \<Rightarrow> instant \<Rightarrow> task \<Rightarrow> bool" where
  "dueBetween a b t = (case dueDate t of None \<Rightarrow> False | Some d \<Rightarrow> a \<le> d \<and> d < b)"

definition dueWithin :: "instant \<Rightarrow> instant \<Rightarrow> task \<Rightarrow> bool" where
  "dueWithin a b t = (case dueDate t of None \<Rightarrow> False | Some d \<Rightarrow> a \<le> d \<and> d \<le> b)"

definition active :: "task \<Rightarrow> bool" where
  "active t \<longleftrightarrow> status t = Pending \<or> status t = InProgress"

definition dueKey :: "task \<Rightarrow> instant" where
  "dueKey t = (case dueDate t of None \<Rightarrow> 0 | Some d \<Rightarrow> d)"

definition computeRate :: "nat \<Rightarrow> nat \<Rightarrow> int" where
  "computeRate totalCount completedCount =
     (if totalCount > 0
      then Math_round (js_mul (js_div (of_nat completedCount) (of_nat totalCount)) 100)
      else 0)"

text \<open>
  \<^verbatim>\<open>generateUserSummary\<close>. The array of queries is built from left to right.
  \<^verbatim>\<open>tomorrow\<close> and \<^verbatim>\<open>nextWeek\<close> are copies made before \<^verbatim>\<open>today\<close> is changed. The
  overdue filter holds the object \<^verbatim>\<open>today\<close> itself; the filter of the next query then
  calls \<^verbatim>\<open>today.setHours\<close> twice, each time copying the result into a new Date.
  \<open>today0\<close>, \<open>today1\<close>, \<open>today2\<close> are the successive values of that one object. A
  query keeps the filter object it was given and reads it when it is sent, after the
  whole array has been built: the overdue bound is the last value, \<open>today2\<close>. Ties of
  the ascending sort keep the collection's order. A rejected query gives the all-zero
  summary.
\<close>

definition generateUserSummary :: "env \<Rightarrow> int \<Rightarrow> instant \<Rightarrow> user_id \<Rightarrow> store \<Rightarrow> summary" where
  "generateUserSummary e tz now uid s =
     (if storeDown e
      then \<lparr>totalTasks = 0, completedTasks = 0, pendingTasks = 0, overdueTasks = 0,
            todayTasks = 0, upcomingTasks = [], completionRate = 0\<rparr>
      else
        let today0 = now;
            tomorrow = today0 + dayMs;
            nextWeek = today0 + 7 * dayMs;
            today1 = setHours tz 0 0 0 0 today0;
            dayStart = today1;
            today2 = setHours tz 23 59 59 999 today1;
            dayEnd = today2;
            overdueBound = today2;
            mine = (\<lambda>t. userId t = uid \<and> isArchived t = False);
            totalCount = countDocuments mine s;
            completedCount = countDocuments (\<lambda>t. mine t \<and> status t = Completed) s;
            pending = countDocuments (\<lambda>t. mine t \<and> status t = Pending) s;
            inProgress = countDocuments (\<lambda>t. mine t \<and> status t = InProgress) s;
            overdue = countDocuments (\<lambda>t. mine t \<and> dueBefore overdueBound t \<and> active t) s;
            today = countDocuments (\<lambda>t. mine t \<and> dueBetween dayStart dayEnd t \<and> active t) s;
            upcoming = take 5 (sort_key dueKey
                         (filter (\<lambda>t. mine t \<and> dueWithin tomorrow nextWeek t \<and> active t) s))
        in \<lparr>totalTasks = totalCount, completedTasks = completedCount,
             pendingTasks = pending + inProgress, overdueTasks = overdue,
             todayTasks = today,
             upcomingTasks = map (\<lambda>t. (title t, dueDate t, priority t)) upcoming,
             completionRate = computeRate totalCount completedCount\<rparr>)"

section \<open>Vocabulary of the statements and concrete inputs\<close>

text \<open>The notified flag of the stored task with a given id.\<close>

definition notifiedOf :: "store \<Rightarrow> task_id \<Rightarrow> bool option" where
  "notifiedOf s i = Option.bind (lookup s i) (\<lambda>d. notified (reminder d))"

text \<open>
  What one callback does to one stored document, and which mail calls it makes: the
  callback of the cycle marks the stored document of its task when it gets as far as the
  save and the save is accepted (\<open>willMark\<close>), and leaves every other document alone.
  The lemmas below show that the loop bodies above are exactly this.
\<close>

definition stamp :: "instant \<Rightarrow> task \<Rightarrow> task \<Rightarrow> task" where
  "stamp now t d = d\<lparr>reminder := (reminder d)\<lparr>notified := Some True\<rparr>, lastModified := now,
                      syncVersion := syncVersion t + 1\<rparr>"

definition markDoc :: "(task \<Rightarrow> bool) \<Rightarrow> instant \<Rightarrow> task \<Rightarrow> task \<Rightarrow> task" where
  "markDoc P now t d = (if P t \<and> tid d = tid t then stamp now t d else d)"

definition willMark :: "env \<Rightarrow> users \<Rightarrow> task \<Rightarrow> bool" where
  "willMark e us t \<longleftrightarrow>
     (case us (userId t) of
        None \<Rightarrow> False
      | Some u \<Rightarrow> (emailPref u = Some False \<or> priority t \<noteq> None) \<and> \<not> saveFails e (tid t))"

definition callsOf :: "env \<Rightarrow> users \<Rightarrow> task \<Rightarrow> mail_log" where
  "callsOf e us t =
     (case us (userId t) of
        None \<Rightarrow> []
      | Some u \<Rightarrow>
          if emailPref u \<noteq> Some False
          then (case priority t of None \<Rightarrow> [] | Some p \<Rightarrow> [(tid t, sendEmail e (tid t))])
          else [])"

text \<open>
  The result of the query of a cycle, empty when the query is rejected, and the mail
  calls the scheduler's loop makes for one task.
\<close>

definition scanned :: "env \<Rightarrow> instant \<Rightarrow> store \<Rightarrow> task list" where
  "scanned e now s = (if storeDown e then [] else filter (dueReminder now) s)"

definition scanned_scheduler :: "env \<Rightarrow> instant \<Rightarrow> store \<Rightarrow> task list" where
  "scanned_scheduler e now s = (if storeDown e then [] else filter (pendingReminder now) s)"

definition callsOf_scheduler :: "env \<Rightarrow> users \<Rightarrow> task \<Rightarrow> mail_log" where
  "callsOf_scheduler e us t =
     (case us (userId t) of
        None \<Rightarrow> []
      | Some u \<Rightarrow>
          if email u = [] \<or> emailPref u \<noteq> Some True then []
          else [(tid t, if transportOk e (tid t) then Delivered else Undelivered)])"

text \<open>
  The specification's own words, for comparison with the code. Its
  \<^verbatim>\<open>markReminderSent(taskId, expectedReminderAt)\<close> sets the flag only if the stored
  reminder date still equals the expected one and the flag is still unset, and reports
  whether it did. Its overdue count is taken against the start of the current day, and
  its completion rate is the exact quotient, rounded to the nearest integer, a tie going
  up as \<^verbatim>\<open>Math.round\<close> does.
\<close>

definition markReminderSent_spec :: "task_id \<Rightarrow> instant option \<Rightarrow> store \<Rightarrow> store \<times> bool" where
  "markReminderSent_spec i expected s =
     (if list_ex (\<lambda>d. tid d = i \<and> reminderDate (reminder d) = expected \<and>
                        notified (reminder d) = Some False) s
      then (map (\<lambda>d. if tid d = i then d\<lparr>reminder := (reminder d)\<lparr>notified := Some True\<rparr>\<rparr> else d) s,
            True)
      else (s, False))"

definition overdue_spec :: "int \<Rightarrow> instant \<Rightarrow> user_id \<Rightarrow> store \<Rightarrow> nat" where
  "overdue_spec tz now uid s =
     length (filter (\<lambda>t. userId t = uid \<and>
                          (case dueDate t of None \<Rightarrow> False
                           | Some d \<Rightarrow> d < setHours tz 0 0 0 0 now) \<and>
                          status t \<noteq> Completed \<and> status t \<noteq> Cancelled \<and>
                          isArchived t = False) s)"

definition completionRate_spec :: "nat \<Rightarrow> nat \<Rightarrow> int" where
  "completionRate_spec totalCount completedCount =
     (if totalCount = 0 then 0
      else \<lfloor>100 * (of_nat completedCount :: rat) / of_nat totalCount + 1 / 2\<rfloor>)"

text \<open>
  Concrete inputs: an environment where everything works and variants with the mail
  transport down (for every task, or for task 1 only), the database down, and every save
  refused; alice, who wants mail, and bob, who switched it off; a task with a reminder at
  instant 1000, written through the Task model, and variants of it, one of them a
  document that also has the two paths the scheduler reads.
\<close>

definition ex_env :: env where
  "ex_env = \<lparr>storeDown = False, saveFails = (\<lambda>i. False), isConfigured = True,
             templateLoaded = True, transportOk = (\<lambda>i. True)\<rparr>"

definition ex_env_mail_down :: env where
  "ex_env_mail_down = ex_env\<lparr>transportOk := (\<lambda>i. False)\<rparr>"


definition ex_env_db_down :: env where
  "ex_env_db_down = ex_env\<lparr>storeDown := True\<rparr>"

definition ex_env_save_refused :: env where
  "ex_env_save_refused = ex_env\<lparr>saveFails := (\<lambda>i. True)\<rparr>"

definition ex_alice :: user where
  "ex_alice = \<lparr>uname = ''alice'', email = ''alice@example.org'', emailPref = Some True\<rparr>"

definition ex_bob :: user where
  "ex_bob = \<lparr>uname = ''bob'', email = ''bob@example.org'', emailPref = Some False\<rparr>"

definition ex_users :: users where
  "ex_users = (\<lambda>u. if u = 1 then Some ex_alice else if u = 2 then Some ex_bob else None)"

definition ex_task :: task where
  "ex_task = \<lparr>tid = 1, userId = 1, title = ''pay rent'', status = Pending,
              priority = Some Medium, dueDate = None,
              reminder = \<lparr>enabled = Some True, reminderDate = Some 1000, notified = Some False\<rparr>,
              isArchived = False, lastModified = 0, syncVersion = 1,
              reminder_sent = None, reminder_datetime = None\<rparr>"

definition ex_task2 :: task where
  "ex_task2 = ex_task\<lparr>tid := 2, title := ''call home''\<rparr>"

definition ex_task_bob :: task where
  "ex_task_bob = ex_task\<lparr>tid := 3, userId := 2\<rparr>"

definition ex_task_sent :: task where
  "ex_task_sent = ex_task\<lparr>reminder := \<lparr>enabled = Some True, reminderDate = Some 1000,
                                          notified = Some True\<rparr>\<rparr>"

definition ex_task_edited :: task where
  "ex_task_edited = ex_task\<lparr>reminder := \<lparr>enabled = Some True, reminderDate = Some 2000,
                                            notified = Some False\<rparr>\<rparr>"

definition ex_task_soon :: task where
  "ex_task_soon = ex_task\<lparr>reminder := \<lparr>enabled = Some True, reminderDate = Some 60000,
                                          notified = Some False\<rparr>\<rparr>"

definition ex_task_due_today :: task where
  "ex_task_due_today = ex_task\<lparr>dueDate := Some 3600000\<rparr>"

definition ex_task_due_tonight :: task where
  "ex_task_due_tonight = ex_task\<lparr>dueDate := Some 64800000\<rparr>"

definition ex_task_raw :: task where
  "ex_task_raw = ex_task\<lparr>reminder_sent := Some False, reminder_datetime := Some 1000\<rparr>"

definition ex_forty :: store where
  "ex_forty = map (\<lambda>n. ex_task\<lparr>tid := n, status := (if n < 23 then Completed else Pending)\<rparr>)
                  [0..<40]"

section \<open>Properties of the model\<close>

lemma lookup_None_iff: "lookup s i = None \<longleftrightarrow> (\<forall>d\<in>set s. tid d \<noteq> i)"
  by (auto simp: lookup_def find_None_iff)

lemma lookup_Some_tid: "lookup s i = Some d \<Longrightarrow> tid d = i \<and> d \<in> set s"
  by (auto simp: lookup_def find_Some_iff)

lemma markNotified_eq:
  "markNotified e now t s =
     (if saveFails e (tid t) then Inl StoreError
      else if lookup s (tid t) = None then Inl DocumentNotFound
      else Inr (map (markDoc (\<lambda>_. True) now t) s))"
  by (simp add: markNotified_def save_def markDoc_def stamp_def)

lemma markDoc_absent: "lookup s (tid t) = None \<Longrightarrow> map (markDoc P now t) s = s"
  by (rule map_idI) (auto simp: lookup_None_iff markDoc_def)

lemma markDoc_False: "\<not> P t \<Longrightarrow> map (markDoc P now t) s = s"
  by (rule map_idI) (simp add: markDoc_def)

lemma markDoc_True: "P t \<Longrightarrow> markDoc P now t = markDoc (\<lambda>_. True) now t"
  by (rule ext) (simp add: markDoc_def)

lemma mark_store_Inl:
  "markNotified e now t s = Inl err \<Longrightarrow> map (markDoc (\<lambda>x. \<not> saveFails e (tid x)) now t) s = s"
  by (cases "saveFails e (tid t)")
     (auto simp: markNotified_eq markDoc_False markDoc_absent split: if_splits)

lemma mark_store_Inr:
  "markNotified e now t s = Inr s' \<Longrightarrow> s' = map (markDoc (\<lambda>x. \<not> saveFails e (tid x)) now t) s"
  by (cases "saveFails e (tid t)")
     (auto simp: markNotified_eq markDoc_True[of "\<lambda>x. \<not> saveFails e (tid x)"] split: if_splits)

lemma remindOne_eq:
  "remindOne e now us t (s, l) = (map (markDoc (willMark e us) now t) s, l @ callsOf e us t)"
proof (cases "us (userId t)")
  case None
  then show ?thesis
    by (simp add: remindOne_def callsOf_def markDoc_False willMark_def)
next
  case (Some u)
  show ?thesis
  proof (cases "emailPref u = Some False \<or> priority t \<noteq> None")
    case True
    have "markDoc (willMark e us) now t = markDoc (\<lambda>x. \<not> saveFails e (tid x)) now t"
      using Some True by (intro ext) (simp add: markDoc_def willMark_def)
    then show ?thesis using Some True
      by (auto simp: remindOne_def callsOf_def sendTaskReminder_def mark_store_Inl
               dest: mark_store_Inr split: sum.splits)
  next
    case False
    then show ?thesis using Some
      by (auto simp: remindOne_def callsOf_def sendTaskReminder_def markDoc_False willMark_def)
  qed
qed

lemma fold_remindOne:
  "fold (remindOne e now us) ts (s, l) =
     (map (\<lambda>d. fold (markDoc (willMark e us) now) ts d) s, l @ concat (map (callsOf e us) ts))"
  by (induction ts arbitrary: s l) (simp_all add: remindOne_eq comp_def)

lemma checkOne_log: "snd (checkOne e now us t acc) = snd acc @ callsOf_scheduler e us t"
  by (cases "us (userId t)")
     (auto simp: checkOne_def sendTaskReminder_scheduler_def sendEmail_scheduler_def
                 callsOf_scheduler_def Let_def split: sum.splits)

lemma fold_checkOne_log:
  "snd (fold (checkOne e now us) ts acc) = snd acc @ concat (map (callsOf_scheduler e us) ts)"
  by (induction ts arbitrary: acc) (simp_all add: checkOne_log)

lemma fold_markDoc_tid [simp]: "tid (fold (markDoc P now) ts d) = tid d"
  by (induction ts arbitrary: d) (simp_all add: markDoc_def stamp_def)

lemma fold_markDoc_fields [simp]:
  "userId (fold (markDoc P now) ts d) = userId d"
  "status (fold (markDoc P now) ts d) = status d"
  "isArchived (fold (markDoc P now) ts d) = isArchived d"
  "priority (fold (markDoc P now) ts d) = priority d"
  "dueDate (fold (markDoc P now) ts d) = dueDate d"
  "enabled (reminder (fold (markDoc P now) ts d)) = enabled (reminder d)"
  "reminderDate (reminder (fold (markDoc P now) ts d)) = reminderDate (reminder d)"
  by (induction ts arbitrary: d; simp add: markDoc_def stamp_def)+

lemma fold_markDoc_notified:
  "notified (reminder (fold (markDoc P now) ts d)) =
     (if \<exists>t\<in>set ts. P t \<and> tid t = tid d then Some True else notified (reminder d))"
  by (induction ts arbitrary: d) (auto simp: markDoc_def stamp_def)

lemma lookup_map:
  assumes "\<And>d. tid (g d) = tid d"
  shows "lookup (map g s) i = map_option g (lookup s i)"
  by (induction s) (simp_all add: lookup_def assms)

lemma lookup_member: "distinct (map tid s) \<Longrightarrow> d \<in> set s \<Longrightarrow> lookup s (tid d) = Some d"
  by (induction s) (auto simp: lookup_def)

lemma cycle_eq:
  "checkAndSendReminders e now us s =
     (map (fold (markDoc (willMark e us) now) (scanned e now s)) s,
      concat (map (callsOf e us) (scanned e now s)))"
  by (simp add: checkAndSendReminders_def fold_remindOne scanned_def)

lemma scheduler_log:
  "snd (checkReminders e now us s) =
     concat (map (callsOf_scheduler e us) (scanned_scheduler e now s))"
  by (simp add: checkReminders_def fold_checkOne_log scanned_scheduler_def)

lemma notifiedOf_cycle:
  "notifiedOf (map (fold (markDoc P now) ts) s) i =
     (case lookup s i of None \<Rightarrow> None
      | Some d \<Rightarrow> if \<exists>t\<in>set ts. P t \<and> tid t = i then Some True else notified (reminder d))"
proof (cases "lookup s i")
  case None
  then show ?thesis by (simp add: notifiedOf_def lookup_map)
next
  case (Some d)
  then have "tid d = i" by (simp add: lookup_Some_tid)
  then show ?thesis using Some
    by (simp add: notifiedOf_def lookup_map fold_markDoc_notified)
qed

lemma summary_total:
  "\<not> storeDown e \<Longrightarrow> totalTasks (generateUserSummary e tz now uid s) =
     countDocuments (\<lambda>t. userId t = uid \<and> isArchived t = False) s"
  by (simp add: generateUserSummary_def Let_def)

lemma summary_completed:
  "\<not> storeDown e \<Longrightarrow> completedTasks (generateUserSummary e tz now uid s) =
     countDocuments (\<lambda>t. (userId t = uid \<and> isArchived t = False) \<and> status t = Completed) s"
  by (simp add: generateUserSummary_def Let_def)

lemma summary_rate:
  "completionRate (generateUserSummary e tz now uid s) =
     computeRate (totalTasks (generateUserSummary e tz now uid s))
                 (completedTasks (generateUserSummary e tz now uid s))"
  by (simp add: generateUserSummary_def Let_def computeRate_def)

lemma forty_counts:
  "countDocuments (\<lambda>t. userId t = 1 \<and> isArchived t = False) ex_forty = 40"
  "countDocuments (\<lambda>t. (userId t = 1 \<and> isArchived t = False) \<and> status t = Completed) ex_forty = 23"
  by (simp_all add: countDocuments_def ex_forty_def ex_task_def upt_rec[of _ "numeral _"]
        upt_rec[of _ "Suc _"])

text \<open>
  The double that \<^verbatim>\<open>(23 / 40) * 100\<close> evaluates to, printed 57.49999999999999.
\<close>

lemma product_23_40: "js_mul (js_div 23 40) 100 = 8092405580431359 / 140737488355328"
  by code_simp

lemma rate_40_23: "computeRate 40 23 = 57"
  by code_simp

lemma rate_no_tasks: "computeRate 0 c = 0"
  by (simp add: computeRate_def)

lemma rate_10_3: "computeRate 10 3 = 30"
  by code_simp

lemma rate_8_1: "computeRate 8 1 = 13"
  by code_simp

lemma rate_spec_40_23: "completionRate_spec 40 23 = 58"
  by (simp add: completionRate_spec_def)

lemma lookup_tid: "lookup s i = Some d \<Longrightarrow> tid d = i"
  by (simp add: lookup_Some_tid)

lemma ids_callsOf:
  "map fst (concat (map (callsOf e us) ts)) = map tid (filter (\<lambda>t. callsOf e us t \<noteq> []) ts)"
  by (induction ts) (auto simp: callsOf_def split: option.splits)

lemma calls_willMark: "callsOf e us t \<noteq> [] \<Longrightarrow> \<not> saveFails e (tid t) \<Longrightarrow> willMark e us t"
  by (auto simp: callsOf_def willMark_def split: option.splits if_splits)

lemma set_scanned: "set (scanned e now s) \<subseteq> {t \<in> set s. dueReminder now t}"
  by (auto simp: scanned_def)

lemma set_scanned_scheduler: "set (scanned_scheduler e now s) \<subseteq> {t \<in> set s. pendingReminder now t}"
  by (auto simp: scanned_scheduler_def)

lemma distinct_scanned: "distinct (map tid s) \<Longrightarrow> distinct (map tid (scanned e now s))"
  by (simp add: scanned_def distinct_map_filter)


lemma notifiedOf_marked:
  assumes "distinct (map tid s)" "t \<in> set s" "t \<in> set ts" "P t"
  shows "notifiedOf (map (fold (markDoc P now) ts) s) (tid t) = Some True"
proof -
  have "lookup s (tid t) = Some t" using assms(1,2) by (rule lookup_member)
  moreover have "\<exists>x\<in>set ts. P x \<and> tid x = tid t" using assms(3,4) by blast
  ultimately show ?thesis by (simp add: notifiedOf_cycle)
qed

lemma callsOf_cases: "callsOf e us t = [] \<or> (\<exists>r. callsOf e us t = [(tid t, r)])"
  by (simp add: callsOf_def split: option.splits)

lemma callsOf_fst: "c \<in> set (callsOf e us t) \<Longrightarrow> fst c = tid t"
  using callsOf_cases[of e us t] by auto

lemma callsOf_scheduler_cases:
  "callsOf_scheduler e us t = [] \<or> (\<exists>r. callsOf_scheduler e us t = [(tid t, r)])"
  by (simp add: callsOf_scheduler_def split: option.splits)

lemma callsOf_scheduler_fst: "c \<in> set (callsOf_scheduler e us t) \<Longrightarrow> fst c = tid t"
  using callsOf_scheduler_cases[of e us t] by auto

lemma log_source:
  assumes "c \<in> set (snd (checkAndSendReminders e now us s))"
  shows "\<exists>t\<in>set s. dueReminder now t \<and> c \<in> set (callsOf e us t)"
  using assms set_scanned[of e now s] by (auto simp: cycle_eq)

lemma log_source_scheduler:
  assumes "c \<in> set (snd (checkReminders e now us s))"
  shows "\<exists>t\<in>set s. pendingReminder now t \<and> c \<in> set (callsOf_scheduler e us t)"
  using assms set_scanned_scheduler[of e now s] by (auto simp: scheduler_log)

lemma not_due_when_notified:
  "notified (reminder d) = Some True \<Longrightarrow> \<not> dueReminder now d"
  by (simp add: dueReminder_def)

lemma skipped_not_logged:
  assumes "distinct (map tid s)" "t \<in> set s" "set ts \<subseteq> set s" "f t = []"
    "\<And>c x. c \<in> set (f x) \<Longrightarrow> fst c = tid x"
  shows "tid t \<notin> fst ` set (concat (map f ts))"
proof
  assume "tid t \<in> fst ` set (concat (map f ts))"
  then obtain c x where x: "x \<in> set ts" "c \<in> set (f x)" "fst c = tid t" by auto
  then have "tid x = tid t" using assms(5) by fastforce
  moreover have "x \<in> set s" using x(1) assms(3) by blast
  ultimately have "x = t" using assms(1,2) by (meson distinct_map inj_onD)
  then show False using x(2) assms(4) by simp
qed

lemma marked_everywhere:
  assumes "t \<in> set ts" "P t"
  shows "\<forall>d\<in>set (map (fold (markDoc P now) ts) s). tid d = tid t \<longrightarrow> notified (reminder d) = Some True"
  using assms by (auto simp: fold_markDoc_notified)

lemma lookup_stamped:
  "lookup (map (markDoc P now t) s) j = map_option (markDoc P now t) (lookup s j)"
  by (rule lookup_map) (simp add: markDoc_def stamp_def)

lemma scanned_unsent: "t \<in> set (scanned e now s) \<Longrightarrow> notified (reminder t) = Some False"
  by (auto simp: scanned_def dueReminder_def split: if_splits)

lemma marked_transition:
  assumes "distinct (map tid s)" "x \<in> set ts" "set ts \<subseteq> set s" "P x"
    "notified (reminder x) = Some False"
  shows "notifiedOf s (tid x) = Some False \<and>
         notifiedOf (map (fold (markDoc P now) ts) s) (tid x) = Some True \<and>
         notifiedOf (map (fold (markDoc Q now') ts') (map (fold (markDoc P now) ts) s)) (tid x) = Some True"
proof -
  let ?s1 = "map (fold (markDoc P now) ts) s"
  have mem: "x \<in> set s" using assms(2,3) by blast
  then have l: "lookup s (tid x) = Some x" using assms(1) by (simp add: lookup_member)
  have ex: "\<exists>t\<in>set ts. P t \<and> tid t = tid x" using assms(2,4) by blast
  have l1: "lookup ?s1 (tid x) = Some (fold (markDoc P now) ts x)"
    using l by (simp add: lookup_map)
  have n1: "notified (reminder (fold (markDoc P now) ts x)) = Some True"
    using ex by (simp add: fold_markDoc_notified)
  have a: "notifiedOf s (tid x) = Some False"
    using l assms(5) by (simp add: notifiedOf_def)
  have b: "notifiedOf ?s1 (tid x) = Some True"
    using l1 n1 by (simp add: notifiedOf_def)
  have c: "notifiedOf (map (fold (markDoc Q now') ts') ?s1) (tid x) = Some True"
    unfolding notifiedOf_cycle l1 using n1 by simp
  show ?thesis using a b c by blast
qed

text \<open>One cycle, seen from one task id.\<close>

lemma cycle_ids: "map tid (fst (checkAndSendReminders e now us s)) = map tid s"
  by (simp add: cycle_eq comp_def)

lemma cycle_log_distinct:
  "distinct (map tid s) \<Longrightarrow> distinct (map fst (snd (checkAndSendReminders e now us s)))"
  by (simp add: cycle_eq ids_callsOf distinct_scanned distinct_map_filter)

lemma cycle_called:
  assumes "i \<in> set (map fst (snd (checkAndSendReminders e now us s)))"
  shows "\<exists>t\<in>set (scanned e now s). tid t = i \<and> callsOf e us t \<noteq> []"
  using assms unfolding cycle_eq snd_conv ids_callsOf by auto

lemma cycle_marks_called:
  assumes "distinct (map tid s)" "i \<in> set (map fst (snd (checkAndSendReminders e now us s)))"
    "\<not> saveFails e i"
  shows "notifiedOf s i = Some False \<and> notifiedOf (fst (checkAndSendReminders e now us s)) i = Some True"
proof -
  from assms(2) obtain t where t: "t \<in> set (scanned e now s)" "tid t = i" "callsOf e us t \<noteq> []"
    using cycle_called by blast
  have sub: "set (scanned e now s) \<subseteq> set s" using set_scanned[of e now s] by blast
  have "willMark e us t" using t(2,3) assms(3) by (simp add: calls_willMark)
  then show ?thesis
    unfolding cycle_eq fst_conv t(2)[symmetric]
    using marked_transition[OF assms(1) t(1) sub _ scanned_unsent[OF t(1)],
            where P = "willMark e us" and now = now and ts' = "[]"]
    by blast
qed

lemma cycle_keeps_mark:
  assumes "notifiedOf s i = Some True"
  shows "notifiedOf (fst (checkAndSendReminders e now us s)) i = Some True"
proof -
  obtain d where "lookup s i = Some d" "notified (reminder d) = Some True"
    using assms by (cases "lookup s i") (simp_all add: notifiedOf_def)
  then show ?thesis by (simp only: cycle_eq fst_conv notifiedOf_cycle) simp
qed

lemma cycle_unsent_before:
  assumes "notifiedOf (fst (checkAndSendReminders e now us s)) i = Some False"
  shows "notifiedOf s i = Some False"
proof -
  obtain d where "lookup s i = Some d" "notified (reminder d) = Some False"
    using assms[unfolded cycle_eq fst_conv notifiedOf_cycle]
    by (cases "lookup s i") (simp_all split: if_splits)
  then show ?thesis by (simp add: notifiedOf_def)
qed

lemma cycle_skips_marked:
  assumes "distinct (map tid s)" "notifiedOf s i = Some True"
  shows "i \<notin> set (map fst (snd (checkAndSendReminders e now us s)))"
proof
  assume "i \<in> set (map fst (snd (checkAndSendReminders e now us s)))"
  then obtain t where t: "t \<in> set (scanned e now s)" "tid t = i"
    using cycle_called by blast
  have "t \<in> set s" using t(1) set_scanned[of e now s] by blast
  then have "lookup s i = Some t" using assms(1) t(2) lookup_member by blast
  then have "notifiedOf s i = Some False"
    using scanned_unsent[OF t(1)] by (simp add: notifiedOf_def)
  then show False using assms(2) by simp
qed

text \<open>A sequence of cycles.\<close>

lemma runCycles_ids: "map tid (fst (runCycles cs s)) = map tid s"
  by (induction cs s rule: runCycles.induct) (simp_all add: Let_def cycle_ids)

lemma runCycles_skips_marked:
  assumes "distinct (map tid s)" "notifiedOf s i = Some True"
  shows "i \<notin> set (map fst (snd (runCycles cs s))) \<and> notifiedOf (fst (runCycles cs s)) i = Some True"
  using assms
proof (induction cs s rule: runCycles.induct)
  case (1 s)
  then show ?case by simp
next
  case (2 e now us cs s)
  let ?r = "checkAndSendReminders e now us s"
  have d: "distinct (map tid (fst ?r))" using "2.prems"(1) by (simp add: cycle_ids)
  have m: "notifiedOf (fst ?r) i = Some True" using "2.prems"(2) by (rule cycle_keeps_mark)
  have "i \<notin> set (map fst (snd ?r))" using "2.prems" by (rule cycle_skips_marked)
  then show ?case using "2.IH"[OF refl d m] by (simp add: Let_def)
qed

lemma count_list_distinct: "distinct xs \<Longrightarrow> count_list xs x \<le> 1"
  by (induction xs) (auto simp: count_list_0_iff)

text \<open>
  The day of the summary. After \<^verbatim>\<open>today.setHours(0, 0, 0, 0)\<close> the second call lands
  on the last millisecond of the same local day, and \<open>now\<close> is never after it.
\<close>

lemma end_of_day:
  "setHours tz 23 59 59 999 (setHours tz 0 0 0 0 now) = setHours tz 0 0 0 0 now + dayMs - 1"
proof -
  have "now - (now + tz) mod 86400000 + tz = 86400000 * ((now + tz) div 86400000)"
    using minus_mod_eq_mult_div[of "now + tz" 86400000] by simp
  then have "(now - (now + tz) mod 86400000 + tz) mod 86400000 = 0" by simp
  then show ?thesis by (simp add: setHours_def dayMs_def)
qed

lemma now_in_day: "now \<le> setHours tz 0 0 0 0 now + dayMs - 1"
proof -
  have "(now + tz) mod 86400000 < 86400000" by simp
  then show ?thesis by (simp add: setHours_def dayMs_def)
qed

lemma overdue_exact:
  "\<not> storeDown e \<Longrightarrow> overdueTasks (generateUserSummary e tz now uid s) =
     length (filter (\<lambda>t. (userId t = uid \<and> isArchived t = False) \<and>
                          dueBefore (setHours tz 0 0 0 0 now + dayMs - 1) t \<and> active t) s)"
  by (simp add: generateUserSummary_def Let_def countDocuments_def end_of_day)

section \<open>The claims\<close>

subsection \<open>Marking a reminder as sent\<close>

text \<open>
  Against claim C1 as stated.
  The cycle scanned the task with reminder date 1000; before the save, an edit moved the
  date to 2000. The save sets the flag all the same, where the conditional update of the
  specification would refuse and report that it did not apply.
\<close>

theorem mark_ignores_current_reminder:
  "markNotified ex_env 1500 ex_task [ex_task_edited] =
     Inr [ex_task_edited\<lparr>reminder := \<lparr>enabled = Some True, reminderDate = Some 2000,
                                       notified = Some True\<rparr>,
                         lastModified := 1500, syncVersion := 2\<rparr>] \<and>
   markReminderSent_spec (tid ex_task) (reminderDate (reminder ex_task)) [ex_task_edited] =
     ([ex_task_edited], False)"
  by (simp add: markNotified_def save_def lookup_def ex_env_def ex_task_def ex_task_edited_def
        markReminderSent_spec_def)

text \<open>
  Claim C1, as amended: marking is an unconditional write of the scanned document. When
  the task still exists and the store accepts the save, the stored task's notified flag
  becomes true whatever its stored reminder date and flag are, its other reminder fields
  and every other task stay as stored, and nothing is reported to the caller. The write
  agrees with the conditional update of the specification, on the reminder
  sub-documents, when the stored task still has the scanned reminder date and an unset
  flag.
\<close>

theorem mark_is_unconditional_write:
  assumes "lookup s (tid t) = Some cur" "\<not> saveFails e (tid t)"
  shows "\<exists>s'. markNotified e now t s = Inr s' \<and>
           (\<exists>cur'. lookup s' (tid t) = Some cur' \<and> notified (reminder cur') = Some True \<and>
                    reminderDate (reminder cur') = reminderDate (reminder cur) \<and>
                    enabled (reminder cur') = enabled (reminder cur)) \<and>
           (\<forall>j. j \<noteq> tid t \<longrightarrow> lookup s' j = lookup s j) \<and>
           (reminderDate (reminder cur) = reminderDate (reminder t) \<and>
            notified (reminder cur) = Some False \<longrightarrow>
              map reminder s' =
                map reminder (fst (markReminderSent_spec (tid t) (reminderDate (reminder t)) s)))"
proof -
  let ?s' = "map (markDoc (\<lambda>_. True) now t) s"
  have id: "tid cur = tid t" and mem: "cur \<in> set s"
    using assms(1) by (simp_all add: lookup_Some_tid)
  have run: "markNotified e now t s = Inr ?s'"
    using assms by (simp add: markNotified_eq)
  have here: "lookup ?s' (tid t) = Some (stamp now t cur)"
    using assms(1) id by (simp add: lookup_stamped markDoc_def)
  have there: "lookup ?s' j = lookup s j" if "j \<noteq> tid t" for j
  proof (cases "lookup s j")
    case None
    then show ?thesis by (simp add: lookup_stamped)
  next
    case (Some d)
    then have "tid d = j" by (rule lookup_tid)
    then show ?thesis using Some that by (simp add: lookup_stamped markDoc_def)
  qed
  have agree: "map reminder ?s' =
      map reminder (fst (markReminderSent_spec (tid t) (reminderDate (reminder t)) s))"
    if "reminderDate (reminder cur) = reminderDate (reminder t) \<and>
        notified (reminder cur) = Some False"
  proof -
    have "list_ex (\<lambda>d. tid d = tid t \<and> reminderDate (reminder d) = reminderDate (reminder t) \<and>
                        notified (reminder d) = Some False) s"
      using that id mem by (auto simp: list_ex_iff)
    then show ?thesis
      by (simp add: markReminderSent_spec_def markDoc_def stamp_def)
  qed
  show ?thesis
    using run here there agree by (simp add: stamp_def)
qed

theorem mark_is_unconditional_write_witness:
  "(\<exists>s'. markNotified ex_env 1500 ex_task [ex_task_edited] = Inr s' \<and>
      (\<exists>cur'. lookup s' 1 = Some cur' \<and> notified (reminder cur') = Some True \<and>
               reminderDate (reminder cur') = Some 2000)) \<and>
   (\<exists>s'. markNotified ex_env 1500 ex_task [ex_task] = Inr s' \<and>
      map reminder s' = map reminder (fst (markReminderSent_spec 1 (Some 1000) [ex_task])))"
proof -
  have h: "lookup [ex_task_edited] (tid ex_task) = Some ex_task_edited"
    "lookup [ex_task] (tid ex_task) = Some ex_task" "\<not> saveFails ex_env (tid ex_task)"
    by (simp_all add: lookup_def ex_env_def ex_task_def ex_task_edited_def)
  have f: "tid ex_task = 1" "reminderDate (reminder ex_task) = Some 1000"
    "notified (reminder ex_task) = Some False"
    "reminderDate (reminder ex_task_edited) = Some 2000"
    by (simp_all add: ex_env_def ex_task_def ex_task_edited_def)
  show ?thesis
    using mark_is_unconditional_write[where s = "[ex_task_edited]" and t = ex_task
        and cur = ex_task_edited and e = ex_env and now = 1500]
      mark_is_unconditional_write[where s = "[ex_task]" and t = ex_task
        and cur = ex_task and e = ex_env and now = 1500] h f
    by auto
qed

subsection \<open>At most once per reminder date\<close>

text \<open>
  Against claim C2 as stated.
  The first cycle mails the task and its save is refused, which the callback only logs;
  the second cycle, five minutes later and with nothing edited in between, mails it
  again.
\<close>

theorem unmarked_task_mailed_again:
  "snd (runCycles [(ex_env_save_refused, 1000, ex_users), (ex_env, 301000, ex_users)] [ex_task]) =
     [(1, Delivered), (1, Delivered)]"
  by (simp add: checkAndSendReminders_def remindOne_def sendTaskReminder_def sendEmail_def
        dueReminder_def reminderWindow_def markNotified_def save_def lookup_def
        ex_env_def ex_env_save_refused_def ex_alice_def ex_bob_def ex_users_def ex_task_def)

text \<open>
  Claim C2, as amended: at most once per reminder date, once the mark is stored. Over
  any sequence of cycles of \<^verbatim>\<open>checkAndSendReminders\<close> run one after another on a
  collection with unique ids, nothing else writing in between, a task whose save is
  never refused gets at most one mail call in all of them; if it gets one, its flag was
  unset before the sequence and is set after it.
\<close>

theorem marked_task_mailed_once:
  assumes "distinct (map tid s)" "\<forall>c\<in>set cs. \<not> saveFails (fst c) i"
  shows "count_list (map fst (snd (runCycles cs s))) i \<le> 1 \<and>
         (i \<in> set (map fst (snd (runCycles cs s))) \<longrightarrow>
            notifiedOf s i = Some False \<and> notifiedOf (fst (runCycles cs s)) i = Some True)"
  using assms
proof (induction cs s rule: runCycles.induct)
  case (1 s)
  then show ?case by simp
next
  case (2 e now us cs s)
  let ?r = "checkAndSendReminders e now us s"
  let ?r' = "runCycles cs (fst ?r)"
  have run: "runCycles ((e, now, us) # cs) s = (fst ?r', snd ?r @ snd ?r')"
    by (simp add: Let_def)
  have d: "distinct (map tid (fst ?r))" using "2.prems"(1) by (simp add: cycle_ids)
  have ok: "\<not> saveFails e i" and rest: "\<forall>c\<in>set cs. \<not> saveFails (fst c) i"
    using "2.prems"(2) by simp_all
  show ?case
  proof (cases "i \<in> set (map fst (snd ?r))")
    case True
    have once: "count_list (map fst (snd ?r)) i \<le> 1"
      using "2.prems"(1) by (intro count_list_distinct cycle_log_distinct)
    have flag: "notifiedOf s i = Some False" "notifiedOf (fst ?r) i = Some True"
      using cycle_marks_called[OF "2.prems"(1) True ok] by simp_all
    have later: "i \<notin> set (map fst (snd ?r'))" "notifiedOf (fst ?r') i = Some True"
      using runCycles_skips_marked[OF d flag(2)] by simp_all
    then have "count_list (map fst (snd ?r')) i = 0" by (simp add: count_list_0_iff)
    then show ?thesis using once flag(1) later(2) unfolding run by simp
  next
    case False
    then have none: "count_list (map fst (snd ?r)) i = 0" by (simp add: count_list_0_iff)
    have ih: "count_list (map fst (snd ?r')) i \<le> 1 \<and>
              (i \<in> set (map fst (snd ?r')) \<longrightarrow>
                 notifiedOf (fst ?r) i = Some False \<and> notifiedOf (fst ?r') i = Some True)"
      using "2.IH"[OF refl d rest] .
    have "notifiedOf s i = Some False" if "notifiedOf (fst ?r) i = Some False"
      using that by (rule cycle_unsent_before)
    then show ?thesis using none ih False unfolding run by auto
  qed
qed

theorem marked_task_mailed_once_witness:
  "snd (runCycles [(ex_env, 1000, ex_users), (ex_env, 301000, ex_users)] [ex_task, ex_task2]) =
     [(1, Delivered), (2, Delivered)] \<and>
   count_list (map fst (snd (runCycles [(ex_env, 1000, ex_users), (ex_env, 301000, ex_users)]
                                       [ex_task, ex_task2]))) 1 \<le> 1 \<and>
   notifiedOf [ex_task, ex_task2] 1 = Some False \<and>
   notifiedOf (fst (runCycles [(ex_env, 1000, ex_users), (ex_env, 301000, ex_users)]
                              [ex_task, ex_task2])) 1 = Some True"
proof -
  have h: "distinct (map tid [ex_task, ex_task2])"
    "\<forall>c\<in>set [(ex_env, 1000, ex_users), (ex_env, 301000, ex_users)]. \<not> saveFails (fst c) 1"
    by (simp_all add: ex_env_def ex_task_def ex_task2_def)
  have l: "snd (runCycles [(ex_env, 1000, ex_users), (ex_env, 301000, ex_users)] [ex_task, ex_task2]) =
             [(1, Delivered), (2, Delivered)]"
    by (simp add: checkAndSendReminders_def remindOne_def sendTaskReminder_def sendEmail_def
          dueReminder_def reminderWindow_def markNotified_def save_def lookup_def
          ex_env_def ex_alice_def ex_bob_def ex_users_def ex_task_def ex_task2_def)
  show ?thesis
    using marked_task_mailed_once[OF h] l by simp
qed

text \<open>
  The scheduler's loop stores no flag at all: a document it selects is selected and
  mailed again by its next cycle, a minute later.
\<close>

lemma scheduler_sends_again:
  "snd (checkReminders ex_env 1000 ex_users [ex_task_raw]) = [(1, Delivered)] \<and>
   snd (checkReminders ex_env 61000 ex_users
          (fst (checkReminders ex_env 1000 ex_users [ex_task_raw]))) = [(1, Delivered)]"
  by (simp add: checkReminders_def checkOne_def sendTaskReminder_scheduler_def
        sendEmail_scheduler_def pendingReminder_def save_def lookup_def
        ex_env_def ex_alice_def ex_bob_def ex_users_def ex_task_def ex_task_raw_def)

subsection \<open>A failed delivery\<close>

text \<open>
  Claim C3 says that a due task whose mail delivery fails is not marked and is retried.
  In \<^verbatim>\<open>checkAndSendReminders\<close> the mail service reports a failed delivery as a
  returned object, which the caller ignores: with the transport down, the one due task
  gets its \<open>Undelivered\<close> call, is marked notified all the same, and the next cycle,
  with the transport up again, sends nothing.
\<close>

theorem delivery_failure_marked_sent:
  "snd (checkAndSendReminders ex_env_mail_down 1000 ex_users [ex_task]) = [(1, Undelivered)] \<and>
   notifiedOf (fst (checkAndSendReminders ex_env_mail_down 1000 ex_users [ex_task])) 1 = Some True \<and>
   snd (checkAndSendReminders ex_env 2000 ex_users
          (fst (checkAndSendReminders ex_env_mail_down 1000 ex_users [ex_task]))) = []"
  by (simp add: checkAndSendReminders_def remindOne_def sendTaskReminder_def sendEmail_def
        dueReminder_def reminderWindow_def markNotified_def save_def lookup_def
        notifiedOf_def ex_env_def ex_env_mail_down_def ex_alice_def ex_bob_def ex_users_def
        ex_task_def)

text \<open>
  The scheduler's loop, whose mail call rethrows, skips the save of the task it selected.
\<close>

lemma scheduler_keeps_failed_unsent:
  "checkReminders ex_env_mail_down 1000 ex_users [ex_task_raw] =
     ([ex_task_raw], [(1, Undelivered)])"
  by (simp add: checkReminders_def checkOne_def sendTaskReminder_scheduler_def
        sendEmail_scheduler_def pendingReminder_def save_def lookup_def
        ex_env_def ex_env_mail_down_def ex_alice_def ex_bob_def ex_users_def ex_task_def
        ex_task_raw_def)

subsection \<open>A disabled channel\<close>

text \<open>
  Against claim C4 as stated.
  Bob has switched mail off. His due task gets no mail call, and is marked notified.
\<close>

theorem disabled_channel_is_marked:
  "dueReminder 1000 ex_task_bob \<and>
   snd (checkAndSendReminders ex_env 1000 ex_users [ex_task_bob]) = [] \<and>
   notifiedOf (fst (checkAndSendReminders ex_env 1000 ex_users [ex_task_bob])) 3 = Some True"
  by (simp add: checkAndSendReminders_def remindOne_def sendTaskReminder_def sendEmail_def
        dueReminder_def reminderWindow_def markNotified_def save_def lookup_def
        notifiedOf_def ex_env_def ex_alice_def ex_bob_def ex_users_def ex_task_def ex_task_bob_def)

text \<open>
  Claim C4, as amended: for a task that \<^verbatim>\<open>checkAndSendReminders\<close> finds due and whose
  owner has switched mail off, no mail call is made, and the task is marked notified all
  the same when its save is accepted; that mark is what keeps it out of every later scan.
\<close>

theorem disabled_channel_skips_and_marks:
  assumes "distinct (map tid s)" "\<not> storeDown e" "t \<in> set s" "us (userId t) = Some u"
    "\<not> saveFails e (tid t)"
  shows "dueReminder now t \<and> emailPref u = Some False \<longrightarrow>
            tid t \<notin> fst ` set (snd (checkAndSendReminders e now us s)) \<and>
            notifiedOf (fst (checkAndSendReminders e now us s)) (tid t) = Some True \<and>
            (\<forall>now'. \<forall>d\<in>set (fst (checkAndSendReminders e now us s)).
               tid d = tid t \<longrightarrow> \<not> dueReminder now' d)"
proof (intro conjI impI)
  assume a: "dueReminder now t \<and> emailPref u = Some False"
  have sc: "t \<in> set (scanned e now s)" using assms a by (simp add: scanned_def)
  have sub: "set (scanned e now s) \<subseteq> set s" using set_scanned[of e now s] by blast
  have none: "callsOf e us t = []" using assms(4) a by (simp add: callsOf_def)
  have wm: "willMark e us t" using assms(4,5) a by (simp add: willMark_def)
  show "tid t \<notin> fst ` set (snd (checkAndSendReminders e now us s))"
    unfolding cycle_eq snd_conv
    using assms(1,3) sub none callsOf_fst by (rule skipped_not_logged)
  show "notifiedOf (fst (checkAndSendReminders e now us s)) (tid t) = Some True"
    using assms(1,3) sc wm by (simp only: cycle_eq fst_conv notifiedOf_marked)
  show "\<forall>now'. \<forall>d\<in>set (fst (checkAndSendReminders e now us s)).
          tid d = tid t \<longrightarrow> \<not> dueReminder now' d"
    unfolding cycle_eq fst_conv
    using marked_everywhere[where t = t and ts = "scanned e now s" and P = "willMark e us"
                              and now = now and s = s] sc wm not_due_when_notified
    by blast
qed

theorem disabled_channel_skips_and_marks_witness:
  "3 \<notin> fst ` set (snd (checkAndSendReminders ex_env 1000 ex_users [ex_task, ex_task_bob])) \<and>
   notifiedOf (fst (checkAndSendReminders ex_env 1000 ex_users [ex_task, ex_task_bob])) 3 = Some True"
proof -
  have h: "distinct (map tid [ex_task, ex_task_bob])" "\<not> storeDown ex_env"
    "ex_task_bob \<in> set [ex_task, ex_task_bob]" "ex_users (userId ex_task_bob) = Some ex_bob"
    "\<not> saveFails ex_env (tid ex_task_bob)"
    by (simp_all add: ex_env_def ex_alice_def ex_bob_def ex_users_def ex_task_def ex_task_bob_def)
  have f: "dueReminder 1000 ex_task_bob" "emailPref ex_bob = Some False" "tid ex_task_bob = 3"
    by (simp_all add: ex_bob_def ex_task_def ex_task_bob_def dueReminder_def reminderWindow_def)
  show ?thesis
    using disabled_channel_skips_and_marks[where s = "[ex_task, ex_task_bob]" and e = ex_env
        and t = ex_task_bob and us = ex_users and u = ex_bob and now = 1000] h f
    by simp
qed

subsection \<open>Editing the reminder date\<close>

text \<open>
  Claim C5 says that an edit which changes the reminder date of a task already notified
  resets the notified flag, so that the next due cycle delivers again.
  \<^verbatim>\<open>bulkUpdateTasks\<close> writes the update document as it is: after moving the reminder
  date of a notified task, by the dotted key or by a whole \<^verbatim>\<open>reminder\<close> object, the
  flag is not false and the cycle at the new date sends nothing.
\<close>

theorem bulk_edit_keeps_notified:
  "snd (bulkUpdateTasks ex_env 1 [1] (Some [UReminderDate (Some 5000)]) [ex_task_sent]) =
     [ex_task_sent\<lparr>reminder := \<lparr>enabled = Some True, reminderDate = Some 5000,
                                 notified = Some True\<rparr>\<rparr>] \<and>
   snd (checkAndSendReminders ex_env 5000 ex_users
          (snd (bulkUpdateTasks ex_env 1 [1] (Some [UReminderDate (Some 5000)]) [ex_task_sent]))) = [] \<and>
   snd (checkAndSendReminders ex_env 5000 ex_users
          (snd (bulkUpdateTasks ex_env 1 [1]
                  (Some [UReminder \<lparr>enabled = Some True, reminderDate = Some 5000, notified = None\<rparr>])
                  [ex_task_sent]))) = []"
  by (simp add: checkAndSendReminders_def remindOne_def sendTaskReminder_def sendEmail_def
        dueReminder_def reminderWindow_def markNotified_def save_def lookup_def
        bulkUpdateTasks_def updateMany_def
        ex_env_def ex_alice_def ex_bob_def ex_users_def ex_task_def ex_task_sent_def)

text \<open>
  \<^verbatim>\<open>scheduleReminder\<close>, on the same task, does reset the flag, and the cycle delivers.
\<close>

lemma schedule_resets_notified:
  "\<exists>r s'. scheduleReminder ex_env 1500 1 (Some 5000) [ex_task_sent] = Inr (r, s') \<and>
     notifiedOf s' 1 = Some False \<and>
     snd (checkAndSendReminders ex_env 5000 ex_users s') = [(1, Delivered)]"
  by (simp add: checkAndSendReminders_def remindOne_def sendTaskReminder_def sendEmail_def
        dueReminder_def reminderWindow_def markNotified_def save_def lookup_def
        notifiedOf_def ex_env_def ex_alice_def ex_bob_def ex_users_def ex_task_def
              ex_task_sent_def scheduleReminder_def scheduleReminder_try_def findById_def)

subsection \<open>The lookahead window\<close>

text \<open>
  Against claim C6 as stated.
  A reminder set for one minute past the epoch is delivered by the cycle that runs at
  the epoch.
\<close>

theorem reminder_fires_early:
  "reminderDate (reminder ex_task_soon) = Some 60000 \<and>
   snd (checkAndSendReminders ex_env 0 ex_users [ex_task_soon]) = [(1, Delivered)]"
  by (simp add: checkAndSendReminders_def remindOne_def sendTaskReminder_def sendEmail_def
        dueReminder_def reminderWindow_def markNotified_def save_def lookup_def ex_env_def
              ex_alice_def ex_bob_def ex_users_def ex_task_def ex_task_soon_def)

text \<open>
  Claim C6, as amended: the cycle of the notification service looks five minutes ahead,
  so a mail call is made only for a task whose reminder date is at most five minutes
  after the cycle's instant, and the scheduler's \<^verbatim>\<open>checkReminders\<close>, which has no
  lookahead, never makes one before the instant it selects on, the stored
  \<^verbatim>\<open>reminder.datetime\<close>.
\<close>

theorem fires_within_lookahead:
  "(\<forall>c\<in>set (snd (checkAndSendReminders e now us s)).
      \<exists>t\<in>set s. tid t = fst c \<and>
        (\<exists>d. reminderDate (reminder t) = Some d \<and> d - 5 * 60 * 1000 \<le> now)) \<and>
   (\<forall>c\<in>set (snd (checkReminders e now us s)).
      \<exists>t\<in>set s. tid t = fst c \<and> (\<exists>d. reminder_datetime t = Some d \<and> d \<le> now))"
proof (intro conjI ballI)
  fix c assume "c \<in> set (snd (checkAndSendReminders e now us s))"
  then obtain t where t: "t \<in> set s" "dueReminder now t" "c \<in> set (callsOf e us t)"
    using log_source by blast
  from t(2) obtain d where "reminderDate (reminder t) = Some d" "d \<le> now + 5 * 60 * 1000"
    by (auto simp: dueReminder_def reminderWindow_def split: option.splits)
  then show "\<exists>t\<in>set s. tid t = fst c \<and>
               (\<exists>d. reminderDate (reminder t) = Some d \<and> d - 5 * 60 * 1000 \<le> now)"
    using t(1,3) callsOf_fst[of c e us t] by (intro bexI[of _ t]) auto
next
  fix c assume "c \<in> set (snd (checkReminders e now us s))"
  then obtain t where t: "t \<in> set s" "pendingReminder now t" "c \<in> set (callsOf_scheduler e us t)"
    using log_source_scheduler by blast
  from t(2) obtain d where "reminder_datetime t = Some d" "d \<le> now"
    by (auto simp: pendingReminder_def split: option.splits)
  then show "\<exists>t\<in>set s. tid t = fst c \<and> (\<exists>d. reminder_datetime t = Some d \<and> d \<le> now)"
    using t(1,3) callsOf_scheduler_fst[of c e us t] by (intro bexI[of _ t]) auto
qed

theorem fires_within_lookahead_witness:
  "snd (checkAndSendReminders ex_env 0 ex_users [ex_task_soon]) = [(1, Delivered)] \<and>
   (\<exists>t\<in>set [ex_task_soon]. tid t = 1 \<and>
      (\<exists>d. reminderDate (reminder t) = Some d \<and> d - 5 * 60 * 1000 \<le> 0)) \<and>
   snd (checkReminders ex_env 1000 ex_users [ex_task_raw]) = [(1, Delivered)] \<and>
   (\<exists>t\<in>set [ex_task_raw]. tid t = 1 \<and> (\<exists>d. reminder_datetime t = Some d \<and> d \<le> 1000))"
proof -
  have l: "snd (checkAndSendReminders ex_env 0 ex_users [ex_task_soon]) = [(1, Delivered)]"
    "snd (checkReminders ex_env 1000 ex_users [ex_task_raw]) = [(1, Delivered)]"
    by (simp_all add: checkAndSendReminders_def remindOne_def sendTaskReminder_def sendEmail_def
          dueReminder_def reminderWindow_def checkReminders_def checkOne_def
          sendTaskReminder_scheduler_def sendEmail_scheduler_def pendingReminder_def
          markNotified_def save_def lookup_def ex_env_def ex_alice_def ex_bob_def ex_users_def
          ex_task_def ex_task_soon_def ex_task_raw_def)
  show ?thesis
    using fires_within_lookahead[of ex_env 0 ex_users "[ex_task_soon]"]
      fires_within_lookahead[of ex_env 1000 ex_users "[ex_task_raw]"] l
    by simp
qed

subsection \<open>Cycle isolation\<close>



subsection \<open>The overdue count\<close>

text \<open>
  Against claim C8 as stated.
  At noon UTC, a task that was due at one o'clock the same morning counts as overdue;
  against the start of the day it would not.
\<close>

theorem overdue_uses_instant:
  "overdueTasks (generateUserSummary ex_env 0 43200000 1 [ex_task_due_today]) = 1 \<and>
   overdue_spec 0 43200000 1 [ex_task_due_today] = 0"
  by (simp add: generateUserSummary_def countDocuments_def dueBefore_def active_def
        setHours_def dayMs_def ex_env_def ex_task_def ex_task_due_today_def overdue_spec_def)

text \<open>
  Claim C8, as amended: the overdue count is not taken against the start of the current
  day. It counts every task of the user that is due before the instant \<open>now\<close>, has a
  status that is neither completed nor cancelled and is not archived; and every task it
  counts is the user's, has such a status, is not archived and is due before the next
  local day begins.
\<close>

theorem overdue_counts_due_before_now:
  assumes "\<not> storeDown e"
  shows "\<exists>counted. overdueTasks (generateUserSummary e tz now uid s) = length (filter counted s) \<and>
           (\<forall>t. userId t = uid \<and> (\<exists>d. dueDate t = Some d \<and> d < now) \<and>
                status t \<notin> {Completed, Cancelled} \<and> \<not> isArchived t \<longrightarrow> counted t) \<and>
           (\<forall>t. counted t \<longrightarrow>
                userId t = uid \<and> (\<exists>d. dueDate t = Some d \<and> d < setHours tz 0 0 0 0 now + dayMs) \<and>
                status t \<notin> {Completed, Cancelled} \<and> \<not> isArchived t)"
proof -
  let ?end = "setHours tz 0 0 0 0 now + dayMs - 1"
  let ?counted = "\<lambda>t. (userId t = uid \<and> isArchived t = False) \<and> dueBefore ?end t \<and> active t"
  have count: "overdueTasks (generateUserSummary e tz now uid s) = length (filter ?counted s)"
    using assms by (rule overdue_exact)
  have lower: "?counted t"
    if "userId t = uid \<and> (\<exists>d. dueDate t = Some d \<and> d < now) \<and>
        status t \<notin> {Completed, Cancelled} \<and> \<not> isArchived t" for t
    using that now_in_day[of now tz]
    by (cases "status t") (auto simp: dueBefore_def active_def)
  have upper: "userId t = uid \<and> (\<exists>d. dueDate t = Some d \<and> d < setHours tz 0 0 0 0 now + dayMs) \<and>
               status t \<notin> {Completed, Cancelled} \<and> \<not> isArchived t"
    if "?counted t" for t
    using that by (cases "dueDate t") (auto simp: dueBefore_def active_def)
  show ?thesis
    using count lower upper by (intro exI[of _ ?counted]) blast
qed

theorem overdue_counts_due_before_now_witness:
  "overdueTasks (generateUserSummary ex_env 0 43200000 1 [ex_task_due_today]) = 1"
proof -
  have h: "\<not> storeDown ex_env" by (simp add: ex_env_def)
  have t: "userId ex_task_due_today = 1 \<and> (\<exists>d. dueDate ex_task_due_today = Some d \<and> d < 43200000) \<and>
           status ex_task_due_today \<notin> {Completed, Cancelled} \<and> \<not> isArchived ex_task_due_today"
    by (simp add: ex_task_def ex_task_due_today_def)
  from overdue_counts_due_before_now[OF h, of 0 43200000 1 "[ex_task_due_today]"]
  obtain counted where
    c: "overdueTasks (generateUserSummary ex_env 0 43200000 1 [ex_task_due_today]) =
          length (filter counted [ex_task_due_today])"
    and l: "\<forall>t. userId t = 1 \<and> (\<exists>d. dueDate t = Some d \<and> d < 43200000) \<and>
                status t \<notin> {Completed, Cancelled} \<and> \<not> isArchived t \<longrightarrow> counted t"
    by blast
  have "counted ex_task_due_today" using l t by blast
  then show ?thesis using c by simp
qed

text \<open>
  The filter is read after \<^verbatim>\<open>today\<close> has been moved to the end of the day: at noon, a
  task due at six that evening is already counted.
\<close>

lemma overdue_counts_task_due_tonight:
  "overdueTasks (generateUserSummary ex_env 0 43200000 1 [ex_task_due_tonight]) = 1"
  by (simp add: generateUserSummary_def countDocuments_def dueBefore_def active_def
        setHours_def dayMs_def ex_env_def ex_task_def ex_task_due_tonight_def)

subsection \<open>The completion rate\<close>

text \<open>
  Claim C9 says that the completion rate is 100 times completed over total, rounded.
  For 23 completed tasks out of 40 the exact value is 57.5, which rounds to 58; the code
  divides first, the double nearest to 23/40 lies below it, the product is just under
  57.5, and \<^verbatim>\<open>Math.round\<close> gives 57.
\<close>

theorem completion_rate_tie_rounds_down:
  "completionRate (generateUserSummary ex_env 0 0 1 ex_forty) = 57 \<and>
   completionRate_spec (totalTasks (generateUserSummary ex_env 0 0 1 ex_forty))
                       (completedTasks (generateUserSummary ex_env 0 0 1 ex_forty)) = 58"
proof -
  have up: "\<not> storeDown ex_env" by (simp add: ex_env_def)
  have t: "totalTasks (generateUserSummary ex_env 0 0 1 ex_forty) = 40"
    unfolding summary_total[OF up] by (rule forty_counts)
  have c: "completedTasks (generateUserSummary ex_env 0 0 1 ex_forty) = 23"
    unfolding summary_completed[OF up] by (rule forty_counts)
  show ?thesis
    unfolding summary_rate t c by (simp add: rate_40_23 rate_spec_40_23)
qed

subsection \<open>Scheduling and cancelling never throw\<close>

text \<open>
  Claim C10: \<^verbatim>\<open>scheduleReminder\<close> and \<^verbatim>\<open>cancelReminder\<close> never throw to their
  caller. For every input they return a result object: with \<open>success\<close> false, the
  failure message and the caught error, and the collection untouched, when the database
  is down, the task is missing or the save is refused (a missing task is the error
  \<open>TaskNotFound\<close>); with \<open>success\<close> true otherwise.
\<close>

theorem reminder_ops_return_result:
  "(\<exists>r s'. scheduleReminder e now i rd s = Inr (r, s') \<and>
      (if storeDown e \<or> lookup s i = None \<or> saveFails e i
       then \<not> success r \<and> message r = ''Failed to schedule reminder'' \<and> error r \<noteq> None \<and> s' = s \<and>
            (\<not> storeDown e \<and> lookup s i = None \<longrightarrow> error r = Some TaskNotFound)
       else success r \<and> message r = ''Reminder scheduled successfully'' \<and> error r = None \<and>
            scheduledDate r = rd)) \<and>
   (\<exists>r s'. cancelReminder e now i s = Inr (r, s') \<and>
      (if storeDown e \<or> lookup s i = None \<or> saveFails e i
       then \<not> success r \<and> message r = ''Failed to cancel reminder'' \<and> error r \<noteq> None \<and> s' = s \<and>
            (\<not> storeDown e \<and> lookup s i = None \<longrightarrow> error r = Some TaskNotFound)
       else success r \<and> message r = ''Reminder cancelled successfully'' \<and> error r = None))"
proof (cases "lookup s i")
  case None
  then show ?thesis
    by (simp add: scheduleReminder_def scheduleReminder_try_def cancelReminder_def
                  cancelReminder_try_def findById_def)
next
  case (Some t)
  then have "tid t = i" by (rule lookup_tid)
  then show ?thesis using Some
    by (simp add: scheduleReminder_def scheduleReminder_try_def cancelReminder_def
                  cancelReminder_try_def findById_def save_def)
qed

theorem reminder_ops_return_result_witness:
  "(\<exists>r s'. scheduleReminder ex_env 0 7 (Some 5) [ex_task] = Inr (r, s') \<and> \<not> success r \<and>
            message r = ''Failed to schedule reminder'' \<and> error r = Some TaskNotFound) \<and>
   (\<exists>r s'. cancelReminder ex_env_db_down 0 1 [ex_task] = Inr (r, s') \<and> \<not> success r \<and>
            message r = ''Failed to cancel reminder'') \<and>
   (\<exists>r s'. scheduleReminder ex_env 0 1 (Some 5) [ex_task] = Inr (r, s') \<and> success r)"
proof -
  have env: "\<not> storeDown ex_env" "\<not> saveFails ex_env 1" "storeDown ex_env_db_down"
    by (simp_all add: ex_env_def ex_env_db_down_def ex_task_def)
  have docs: "lookup [ex_task] 7 = None" "lookup [ex_task] 1 \<noteq> None"
    by (simp_all add: lookup_def ex_task_def)
  show ?thesis
    using reminder_ops_return_result[of ex_env 0 7 "Some 5" "[ex_task]"] reminder_ops_return_result[of ex_env_db_down 0 1 None "[ex_task]"]
      reminder_ops_return_result[of ex_env 0 1 "Some 5" "[ex_task]"] env docs
    by auto
qed

end
